theory Spec2Isabelle
  imports Main
begin

section \<open>Data model of \<open>manage-document-form.tsx\<close>\<close>

text \<open>
  A \<open>File\<close> is an opaque browser object; the component reads only its name
  (\<open>file.name\<close> in the drop handler) and otherwise passes it on unchanged.
\<close>

datatype File = File (file_name: string)

text \<open>
  \<open>type Document = { id?: string; name?: string; file?: File }\<close>.
  An absent (or \<open>null\<close>) field is \<open>None\<close>. The fields are called \<open>doc_id\<close>,
  \<open>doc_name\<close> and \<open>doc_file\<close> because \<open>id\<close> is a constant of HOL.
\<close>

record Document =
  doc_id :: "string option"
  doc_name :: "string option"
  doc_file :: "File option"

text \<open>
  \<open>type FormValue = { documents: Document[] }\<close>. The submit handler reads
  \<open>data.documents || []\<close>, so a missing list is a value of the model.
\<close>

record FormValue =
  documents :: "Document list option"

text \<open>The elements of the prop \<open>initialDocuments: { id: string; name: string }[]\<close>.\<close>

record InitialDocument =
  init_id :: string
  init_name :: string

subsection \<open>JavaScript values that can be thrown\<close>

text \<open>
  The \<open>catch\<close> clause of the submit handler receives whatever was thrown, so the
  thrown value ranges over all JavaScript values. Numbers are restricted to integers
  (\<open>NaN\<close> is left out); an \<open>Error\<close> instance carries its name and its message; a plain
  object carries its own properties.
\<close>

datatype jsvalue =
    JSUndefined
  | JSNull
  | JSBoolean bool
  | JSNumber int
  | JSString string
  | JSFunction
  | JSError string string
  | JSObject "(string \<times> jsvalue) list"

text \<open>The coercion \<open>!!v\<close>.\<close>

fun truthy :: "jsvalue \<Rightarrow> bool" where
  "truthy JSUndefined = False"
| "truthy JSNull = False"
| "truthy (JSBoolean b) = b"
| "truthy (JSNumber n) = (n \<noteq> 0)"
| "truthy (JSString s) = (s \<noteq> [])"
| "truthy JSFunction = True"
| "truthy (JSError n m) = True"
| "truthy (JSObject ps) = True"

text \<open>
  The \<open>TypeError\<close> the runtime raises when a property of \<open>undefined\<close> or \<open>null\<close>
  is read. The wording of its message depends on the engine.
\<close>

definition nullishTypeError :: jsvalue where
  "nullishTypeError = JSError ''TypeError'' ''Cannot read properties of undefined or null''"

text \<open>
  The property read \<open>e.message\<close>: it raises on \<open>undefined\<close> and \<open>null\<close>, finds the
  property on errors and on objects that have it, and is \<open>undefined\<close> everywhere else.
  \<open>Inl\<close> is a raised value, \<open>Inr\<close> the value read.
\<close>

fun getMessage :: "jsvalue \<Rightarrow> jsvalue + jsvalue" where
  "getMessage JSUndefined = Inl nullishTypeError"
| "getMessage JSNull = Inl nullishTypeError"
| "getMessage (JSError n m) = Inr (JSString m)"
| "getMessage (JSObject ps) =
     Inr (case map_of ps ''message'' of None \<Rightarrow> JSUndefined | Some v \<Rightarrow> v)"
| "getMessage v = Inr JSUndefined"

subsection \<open>Component state and what the outside observes\<close>

text \<open>
  Everything the submit handler and the effect do to the outside, in program order:
  the calls of the two React state setters, the calls of the two callbacks of the
  parent, the call of the update service, one pull on its progress sequence (the
  \<open>await\<close> of \<open>for await\<close>), and the reset of the form.
\<close>

datatype event =
    SetUpdating bool
  | SetUpdateProgressMessage "string option"
  | OnUpdateStart
  | OnUpdateEnd "jsvalue option"
  | SubmitUpdateDocuments "File list" "string list"
  | AwaitNext
  | FormReset "Document list"

text \<open>
  A \<open>useState\<close> setter does not assign its cell: it queues the new value and asks
  React for a render, and the cell has the new value from that render on. (React
  batches setter calls wherever they are made from version 18 on; \<open>useTransition\<close>,
  which the theme toggle of this repository uses, exists from that version on.)
\<close>

datatype request = RequestUpdating bool | RequestProgressMessage "string option"

text \<open>
  The two \<open>useState\<close> cells as of the last render, the setter calls made since,
  oldest first, the form's \<open>documents\<close> field, and the log of events.
\<close>

record state =
  isUpdating :: bool
  updateProgressMessage :: "string option"
  pending :: "request list"
  form_documents :: "Document list"
  events :: "event list"

definition emit :: "event \<Rightarrow> state \<Rightarrow> state" where
  "emit ev w = w\<lparr>events := events w @ [ev]\<rparr>"

definition setUpdating :: "bool \<Rightarrow> state \<Rightarrow> state" where
  "setUpdating b w = emit (SetUpdating b) (w\<lparr>pending := pending w @ [RequestUpdating b]\<rparr>)"

definition setUpdateProgressMessage :: "string option \<Rightarrow> state \<Rightarrow> state" where
  "setUpdateProgressMessage m w =
     emit (SetUpdateProgressMessage m) (w\<lparr>pending := pending w @ [RequestProgressMessage m]\<rparr>)"

text \<open>
  A render by React: the queued values reach their cells, in the order of the calls.
  When React renders is up to its scheduler; it does not render while the handler is
  running, so between two \<open>await\<close>s the cells do not change. A state of this model
  keeps the cells as of the last render and the whole queue since; \<open>render\<close> of it is
  the state once React has caught up.
\<close>

fun applyRequest :: "request \<Rightarrow> state \<Rightarrow> state" where
  "applyRequest (RequestUpdating b) w = w\<lparr>isUpdating := b\<rparr>"
| "applyRequest (RequestProgressMessage m) w = w\<lparr>updateProgressMessage := m\<rparr>"

definition render :: "state \<Rightarrow> state" where
  "render w = (fold applyRequest (pending w) w)\<lparr>pending := []\<rparr>"

text \<open>
  The props \<open>onUpdateStart: () => void\<close> and \<open>onUpdateEnd: (errorMessage?: string) => void\<close>
  are functions of the parent, and a function can raise: \<open>startRaises\<close> is the value
  \<open>onUpdateStart()\<close> raises, if it raises, and \<open>endRaises\<close> the value \<open>onUpdateEnd\<close>
  raises on a given argument, if it raises.
\<close>

record parent =
  startRaises :: "jsvalue option"
  endRaises :: "jsvalue option \<Rightarrow> jsvalue option"

text \<open>
  How a block is left: normally, by a raised value, or not yet (suspended at an
  \<open>await\<close>).
\<close>

datatype exit = Normal | Thrown jsvalue | Suspended

definition onUpdateStart :: "parent \<Rightarrow> state \<Rightarrow> state \<times> exit" where
  "onUpdateStart p w =
     (emit OnUpdateStart w, case startRaises p of None \<Rightarrow> Normal | Some e \<Rightarrow> Thrown e)"

definition onUpdateEnd :: "parent \<Rightarrow> jsvalue option \<Rightarrow> state \<Rightarrow> state \<times> exit" where
  "onUpdateEnd p errorMessage w =
     (emit (OnUpdateEnd errorMessage) w,
      case endRaises p errorMessage of None \<Rightarrow> Normal | Some e \<Rightarrow> Thrown e)"

section \<open>The delta of a submission (lines 83 to 100 of \<open>onSubmit\<close>)\<close>

text \<open>\<open>!!id\<close> on an optional string: absent and empty are both falsy.\<close>

definition truthyId :: "string option \<Rightarrow> bool" where
  "truthyId i = (case i of None \<Rightarrow> False | Some s \<Rightarrow> s \<noteq> [])"

text \<open>\<open>data.documents || []\<close>\<close>

definition documentsOf :: "FormValue \<Rightarrow> Document list" where
  "documentsOf data = (case documents data of None \<Rightarrow> [] | Some ds \<Rightarrow> ds)"

text \<open>\<open>documents.filter((document) => !!document.file)\<close>: a \<open>File\<close> object is truthy.\<close>

definition addedDocuments :: "Document list \<Rightarrow> Document list" where
  "addedDocuments ds = filter (\<lambda>document. doc_file document \<noteq> None) ds"

definition addedFiles :: "Document list \<Rightarrow> File list" where
  "addedFiles ds = map (\<lambda>document. the (doc_file document)) (addedDocuments ds)"

definition remainedDocuments :: "Document list \<Rightarrow> Document list" where
  "remainedDocuments ds = filter (\<lambda>document. truthyId (doc_id document)) ds"

definition remainedDocumentIds :: "Document list \<Rightarrow> string list" where
  "remainedDocumentIds ds = map (\<lambda>document. the (doc_id document)) (remainedDocuments ds)"

text \<open>
  \<open>initialDocuments.filter(({ id }) => !!id && !remainedDocumentIds.includes(id))\<close>
\<close>

definition removedDocuments :: "Document list \<Rightarrow> InitialDocument list \<Rightarrow> InitialDocument list" where
  "removedDocuments ds initialDocuments =
     filter (\<lambda>x. init_id x \<noteq> [] \<and> init_id x \<notin> set (remainedDocumentIds ds)) initialDocuments"

definition removedDocumentIds :: "Document list \<Rightarrow> InitialDocument list \<Rightarrow> string list" where
  "removedDocumentIds ds initialDocuments = map init_id (removedDocuments ds initialDocuments)"

text \<open>
  \<open>addedFiles.length || removedDocumentIds.length\<close>: a number, falsy exactly when it
  is zero.
\<close>

definition isAnyFileChanged :: "Document list \<Rightarrow> InitialDocument list \<Rightarrow> nat" where
  "isAnyFileChanged ds initialDocuments =
     (if length (addedFiles ds) \<noteq> 0 then length (addedFiles ds)
      else length (removedDocumentIds ds initialDocuments))"

section \<open>The submit handler\<close>

text \<open>
  The update service \<open>submitUpdateDocuments\<close> lives outside this component. A call
  either raises at once or hands back a progress sequence; the sequence is given by
  what its \<open>k\<close>-th pull produces, so it may also go on for ever.
\<close>

datatype step = Yield string | Return | Throw jsvalue

type_synonym generator = "nat \<Rightarrow> step"

type_synonym service = "File list \<Rightarrow> string list \<Rightarrow> jsvalue + generator"

text \<open>The promise returned by \<open>onSubmit\<close>.\<close>

datatype completion = Resolved | Rejected jsvalue

datatype status = Settled completion | Pending

text \<open>
  \<open>for await (const progressMessage of updateProgress) setUpdateProgressMessage(progressMessage)\<close>.
  The first argument bounds the number of pulls that are answered: with none left the
  handler stays suspended at the \<open>await\<close>.
\<close>

fun forAwait :: "nat \<Rightarrow> generator \<Rightarrow> nat \<Rightarrow> state \<Rightarrow> state \<times> exit" where
  "forAwait 0 gen k w = (emit AwaitNext w, Suspended)"
| "forAwait (Suc n) gen k w =
     (case gen k of
        Yield progressMessage \<Rightarrow>
          forAwait n gen (Suc k) (setUpdateProgressMessage (Some progressMessage) (emit AwaitNext w))
      | Return \<Rightarrow> (emit AwaitNext w, Normal)
      | Throw e \<Rightarrow> (emit AwaitNext w, Thrown e))"

text \<open>
  The body of \<open>try\<close> (lines 83 to 116). Both ways of leaving it normally, the
  \<open>return\<close> of line 104 and the end of the block, come right after a call of
  \<open>onUpdateEnd()\<close>.
\<close>

definition tryBlock ::
  "nat \<Rightarrow> service \<Rightarrow> parent \<Rightarrow> InitialDocument list \<Rightarrow> FormValue \<Rightarrow> state \<Rightarrow> state \<times> exit" where
  "tryBlock fuel submitUpdateDocuments p initialDocuments data w =
     (let ds = documentsOf data in
      if isAnyFileChanged ds initialDocuments = 0 then onUpdateEnd p None w
      else
        let w1 = emit (SubmitUpdateDocuments (addedFiles ds) (removedDocumentIds ds initialDocuments)) w in
        case submitUpdateDocuments (addedFiles ds) (removedDocumentIds ds initialDocuments) of
          Inl e \<Rightarrow> (w1, Thrown e)
        | Inr updateProgress \<Rightarrow>
            (case forAwait fuel updateProgress 0 w1 of
               (w2, Normal) \<Rightarrow> onUpdateEnd p None w2
             | (w2, x) \<Rightarrow> (w2, x)))"

text \<open>
  \<open>(e as any).message || JSON.stringify(e) || e\<close>. \<open>JSON.stringify\<close> is a built-in of
  the runtime and a parameter here: it returns a string or \<open>undefined\<close> (\<open>Inr\<close>), or
  raises (\<open>Inl\<close>).
\<close>

definition errorMessage :: "(jsvalue \<Rightarrow> jsvalue + jsvalue) \<Rightarrow> jsvalue \<Rightarrow> jsvalue + jsvalue" where
  "errorMessage stringify e =
     (case getMessage e of
        Inl err \<Rightarrow> Inl err
      | Inr m \<Rightarrow>
          if truthy m then Inr m
          else (case stringify e of
                  Inl err \<Rightarrow> Inl err
                | Inr s \<Rightarrow> if truthy s then Inr s else Inr e))"

text \<open>
  The \<open>catch\<close> clause (lines 117 to 119). What it raises itself, in line 118 or in the
  parent's \<open>onUpdateEnd\<close>, rejects the promise.
\<close>

definition catchBlock ::
  "(jsvalue \<Rightarrow> jsvalue + jsvalue) \<Rightarrow> parent \<Rightarrow> jsvalue \<Rightarrow> state \<Rightarrow> state \<times> completion" where
  "catchBlock stringify p e w =
     (case errorMessage stringify e of
        Inl err \<Rightarrow> (w, Rejected err)
      | Inr msg \<Rightarrow>
          (case onUpdateEnd p (Some msg) w of
             (w1, Thrown err) \<Rightarrow> (w1, Rejected err)
           | (w1, x) \<Rightarrow> (w1, Resolved)))"

text \<open>The \<open>finally\<close> clause (lines 120 to 123).\<close>

definition finallyBlock :: "state \<Rightarrow> state" where
  "finallyBlock w = setUpdateProgressMessage None (setUpdating False w)"

text \<open>
  \<open>onSubmit\<close> (lines 79 to 124). Lines 80 and 81 come before the \<open>try\<close> statement:
  when \<open>onUpdateStart()\<close> raises, neither the \<open>catch\<close> clause nor the \<open>finally\<close> clause
  runs and the promise rejects. The first argument is the number of pulls on the
  progress sequence that are answered; a run that needs more is \<open>Pending\<close>, and the
  \<open>finally\<close> clause has not run yet.
\<close>

definition onSubmit ::
  "nat \<Rightarrow> (jsvalue \<Rightarrow> jsvalue + jsvalue) \<Rightarrow> service \<Rightarrow> parent \<Rightarrow> InitialDocument list
     \<Rightarrow> FormValue \<Rightarrow> state \<Rightarrow> state \<times> status" where
  "onSubmit fuel stringify submitUpdateDocuments p initialDocuments data w =
     (case onUpdateStart p (setUpdating True w) of
        (w0, Thrown e) \<Rightarrow> (w0, Settled (Rejected e))
      | (w0, x) \<Rightarrow>
          (case tryBlock fuel submitUpdateDocuments p initialDocuments data w0 of
             (w1, Suspended) \<Rightarrow> (w1, Pending)
           | (w1, Normal) \<Rightarrow> (finallyBlock w1, Settled Resolved)
           | (w1, Thrown e) \<Rightarrow>
               (case catchBlock stringify p e w1 of (w2, c) \<Rightarrow> (finallyBlock w2, Settled c))))"

section \<open>The effect on \<open>initialDocuments\<close> and the progress display\<close>

text \<open>An element of \<open>initialDocuments\<close> as a form entry: it has no \<open>file\<close>.\<close>

definition asDocument :: "InitialDocument \<Rightarrow> Document" where
  "asDocument x = \<lparr>doc_id = Some (init_id x), doc_name = Some (init_name x), doc_file = None\<rparr>"

text \<open>\<open>form.reset({ documents: initialDocuments })\<close>\<close>

definition formReset :: "InitialDocument list \<Rightarrow> state \<Rightarrow> state" where
  "formReset initialDocuments w =
     emit (FormReset (map asDocument initialDocuments))
       (w\<lparr>form_documents := map asDocument initialDocuments\<rparr>)"

text \<open>The effect of lines 72 to 77, run when \<open>initialDocuments\<close> changes.\<close>

definition initialDocumentsEffect :: "InitialDocument list \<Rightarrow> state \<Rightarrow> state" where
  "initialDocumentsEffect initialDocuments w = formReset initialDocuments (setUpdating False w)"

text \<open>
  The progress text the component renders (lines 227 to 241):
  \<open>isUpdating && (... !!updateProgressMessage && <p>{updateProgressMessage}</p> ...)\<close>.
\<close>

definition shownProgress :: "state \<Rightarrow> string option" where
  "shownProgress w =
     (if isUpdating w then
        (case updateProgressMessage w of
           None \<Rightarrow> None
         | Some m \<Rightarrow> if m \<noteq> [] then Some m else None)
      else None)"

section \<open>The spec's reading of the removed ids\<close>

text \<open>
  The removed ids in the spec's words: every id present in the initial set whose value
  does not occur among the ids of the documents still in the edit list. This definition
  follows the spec, not the code; the code's is \<open>removedDocumentIds\<close>.
\<close>

definition spec_removedIds :: "Document list \<Rightarrow> InitialDocument list \<Rightarrow> string list" where
  "spec_removedIds ds initialDocuments =
     filter (\<lambda>i. Some i \<notin> doc_id ` set ds) (map init_id initialDocuments)"

section \<open>Inputs of the spec's scenarios\<close>

definition idle :: state where
  "idle = \<lparr>isUpdating = False, updateProgressMessage = None, pending = [],
            form_documents = [], events = []\<rparr>"

definition initial12 :: "InitialDocument list" where
  "initial12 =
     [\<lparr>init_id = ''1'', init_name = ''a.pdf''\<rparr>, \<lparr>init_id = ''2'', init_name = ''b.docx''\<rparr>]"

text \<open>The entry for id 2 removed, the file \<open>c.pdf\<close> dropped.\<close>

definition edited :: FormValue where
  "edited = \<lparr>documents = Some
     [\<lparr>doc_id = Some ''1'', doc_name = Some ''a.pdf'', doc_file = None\<rparr>,
      \<lparr>doc_id = None, doc_name = Some ''c.pdf'', doc_file = Some (File ''c.pdf'')\<rparr>]\<rparr>"

text \<open>The form saved as it was opened.\<close>

definition untouched :: FormValue where
  "untouched = \<lparr>documents = Some (map asDocument initial12)\<rparr>"

text \<open>A persisted entry that also carries a dropped file.\<close>

definition replaced :: Document where
  "replaced = \<lparr>doc_id = Some ''1'', doc_name = Some ''a.pdf'', doc_file = Some (File ''a2.pdf'')\<rparr>"

text \<open>An initial set whose only entry has the empty string as its id.\<close>

definition unnamed :: "InitialDocument list" where
  "unnamed = [\<lparr>init_id = [], init_name = ''a.pdf''\<rparr>]"

text \<open>A service that reports \<open>uploading c.pdf\<close>, then \<open>done\<close>, then completes.\<close>

definition twoMessages :: service where
  "twoMessages added removed =
     Inr (\<lambda>k. if k = 0 then Yield ''uploading c.pdf'' else if k = 1 then Yield ''done'' else Return)"

text \<open>A service that reports one message and then rejects with \<open>e\<close>.\<close>

definition rejectsWith :: "jsvalue \<Rightarrow> service" where
  "rejectsWith e added removed = Inr (\<lambda>k. if k = 0 then Yield ''uploading c.pdf'' else Throw e)"

text \<open>A parent whose callbacks return normally.\<close>

definition quiet :: parent where
  "quiet = \<lparr>startRaises = None, endRaises = (\<lambda>errorMessage. None)\<rparr>"

text \<open>A parent whose \<open>onUpdateStart\<close> raises an \<open>Error\<close>.\<close>

definition startFails :: parent where
  "startFails = \<lparr>startRaises = Some (JSError ''Error'' ''start failed''),
                  endRaises = (\<lambda>errorMessage. None)\<rparr>"

text \<open>A serializer that answers \<open>undefined\<close> for every argument.\<close>

definition notSerializable :: "jsvalue \<Rightarrow> jsvalue + jsvalue" where
  "notSerializable e = Inr JSUndefined"

section \<open>Unfolding the model\<close>

lemmas run_defs =
  onSubmit_def tryBlock_def catchBlock_def finallyBlock_def errorMessage_def
  onUpdateStart_def onUpdateEnd_def setUpdating_def setUpdateProgressMessage_def emit_def
  isAnyFileChanged_def addedFiles_def addedDocuments_def removedDocumentIds_def
  removedDocuments_def remainedDocumentIds_def remainedDocuments_def truthyId_def
  documentsOf_def asDocument_def Let_def

lemmas input_defs =
  idle_def initial12_def edited_def untouched_def replaced_def unnamed_def twoMessages_def
  rejectsWith_def notSerializable_def quiet_def startFails_def

section \<open>The delta\<close>

lemma in_remainedDocumentIds:
  "i \<in> set (remainedDocumentIds ds) \<longleftrightarrow> i \<noteq> [] \<and> Some i \<in> doc_id ` set ds"
  by (induction ds)
     (auto simp: remainedDocumentIds_def remainedDocuments_def truthyId_def split: option.splits)

lemma removedDocumentIds_filter:
  "removedDocumentIds ds initialDocuments =
     filter (\<lambda>i. i \<noteq> [] \<and> Some i \<notin> doc_id ` set ds) (map init_id initialDocuments)"
  unfolding removedDocumentIds_def removedDocuments_def filter_map comp_def
  by (rule arg_cong [where f = "map init_id"], rule filter_cong)
     (auto simp: in_remainedDocumentIds)

lemma addedFiles_Some:
  "map Some (addedFiles ds) = filter (\<lambda>f. f \<noteq> None) (map doc_file ds)"
  by (induction ds) (auto simp: addedFiles_def addedDocuments_def)

lemma isAnyFileChanged_0:
  "isAnyFileChanged ds initialDocuments = 0 \<longleftrightarrow>
     addedFiles ds = [] \<and> removedDocumentIds ds initialDocuments = []"
  by (auto simp: isAnyFileChanged_def)

text \<open>
  The spec's scenario: the entry for id 2 removed and \<open>c.pdf\<close> added gives the delta
  with \<open>c.pdf\<close> added and id 2 removed.
\<close>

lemma delta_of_edited:
  "addedFiles (documentsOf edited) = [File ''c.pdf''] \<and>
   removedDocumentIds (documentsOf edited) initial12 = [''2'']"
  by (simp add: run_defs input_defs)

text \<open>
  C1, as the spec states it, fails: an entry of the initial set whose id is the empty
  string and that no document of the edit list carries is a removed id in the spec's
  reading, and the code does not report it.
\<close>

theorem delta_contents_counterexample:
  "spec_removedIds [] unnamed = [[]] \<and> removedDocumentIds [] unnamed = []"
  by (simp add: spec_removedIds_def removedDocumentIds_filter unnamed_def)

text \<open>
  C1, amended: \<open>added\<close> is exactly the sequence of the file payloads of the documents of
  the edit list that carry one, in the order of the edit list; \<open>removedIds\<close> is exactly
  the sequence of the non-empty ids of the initial set that do not occur among the ids
  of the documents of the edit list, in the order of the initial set.
\<close>

theorem delta_contents:
  "map Some (addedFiles ds) = filter (\<lambda>f. f \<noteq> None) (map doc_file ds) \<and>
   removedDocumentIds ds initialDocuments =
     filter (\<lambda>i. i \<noteq> []) (spec_removedIds ds initialDocuments)"
  by (simp add: addedFiles_Some removedDocumentIds_filter spec_removedIds_def conj_commute)

text \<open>
  C7, as the spec states it, fails where the one missing id is the empty string: the
  code then reports no removed id at all.
\<close>

theorem single_removed_counterexample:
  "set (spec_removedIds [] unnamed) = {[]} \<and> set (removedDocumentIds [] unnamed) \<noteq> {[]}"
  by (simp add: spec_removedIds_def removedDocumentIds_filter unnamed_def)

text \<open>
  C7, amended: when exactly one id of the initial set is missing from the ids of the
  edit list and that id is not the empty string, \<open>removedIds\<close> contains that id and
  nothing else.
\<close>

theorem single_removed:
  assumes "set (spec_removedIds ds initialDocuments) = {i}" and "i \<noteq> []"
  shows "set (removedDocumentIds ds initialDocuments) = {i}"
proof -
  have "set (removedDocumentIds ds initialDocuments) =
          {j \<in> set (spec_removedIds ds initialDocuments). j \<noteq> []}"
    by (auto simp: removedDocumentIds_filter spec_removedIds_def)
  with assms show ?thesis by auto
qed

theorem single_removed_witness:
  "set (spec_removedIds (documentsOf edited) initial12) = {''2''} \<and> ''2'' \<noteq> [] \<and>
   set (removedDocumentIds (documentsOf edited) initial12) = {''2''}"
proof -
  have h: "set (spec_removedIds (documentsOf edited) initial12) = {''2''}"
    by (simp add: spec_removedIds_def documentsOf_def edited_def initial12_def)
  have n: "''2'' \<noteq> []" by simp
  from single_removed [OF h n] h n show ?thesis by blast
qed

text \<open>
  C9: an entry of the initial set whose id is the empty string is never among the
  removed ids, whatever the edit list holds; every removed entry has a non-empty id.
\<close>

theorem empty_id_never_removed:
  "[] \<notin> set (removedDocumentIds ds initialDocuments) \<and>
   filter (\<lambda>x. init_id x = []) (removedDocuments ds initialDocuments) = []"
  by (auto simp: removedDocumentIds_def removedDocuments_def filter_empty_conv)

text \<open>
  C10: an entry of the edit list with a non-empty id and a file payload counts in both
  roles: its file is among the added files, and its id counts as remaining, so it is
  not among the removed ids.
\<close>

theorem both_roles:
  assumes "d \<in> set ds" and "doc_id d = Some i" and "i \<noteq> []" and "doc_file d = Some f"
  shows "f \<in> set (addedFiles ds) \<and> i \<in> set (remainedDocumentIds ds) \<and>
         i \<notin> set (removedDocumentIds ds initialDocuments)"
proof -
  from assms have "f \<in> set (addedFiles ds)"
    by (force simp: addedFiles_def addedDocuments_def image_iff)
  moreover from assms have "i \<in> set (remainedDocumentIds ds)"
    by (force simp: in_remainedDocumentIds image_iff)
  ultimately show ?thesis
    by (auto simp: removedDocumentIds_def removedDocuments_def)
qed

theorem both_roles_witness:
  "replaced \<in> set [replaced] \<and> doc_id replaced = Some ''1'' \<and> ''1'' \<noteq> [] \<and>
   doc_file replaced = Some (File ''a2.pdf'') \<and>
   File ''a2.pdf'' \<in> set (addedFiles [replaced]) \<and>
   ''1'' \<in> set (remainedDocumentIds [replaced]) \<and>
   ''1'' \<notin> set (removedDocumentIds [replaced] initial12)"
  using both_roles [of replaced "[replaced]" "''1''" "File ''a2.pdf''" initial12]
  by (simp add: replaced_def)

section \<open>Setters and renders\<close>

lemma events_emit [simp]: "events (emit ev w) = events w @ [ev]"
  by (simp add: emit_def)

lemma cells_emit [simp]:
  "isUpdating (emit ev w) = isUpdating w"
  "updateProgressMessage (emit ev w) = updateProgressMessage w"
  "pending (emit ev w) = pending w"
  by (simp_all add: emit_def)

text \<open>A setter call leaves the cells as they are and adds to the queue.\<close>

lemma cells_setUpdating [simp]:
  "isUpdating (setUpdating b w) = isUpdating w"
  "updateProgressMessage (setUpdating b w) = updateProgressMessage w"
  "pending (setUpdating b w) = pending w @ [RequestUpdating b]"
  "events (setUpdating b w) = events w @ [SetUpdating b]"
  by (simp_all add: setUpdating_def)

lemma cells_setUpdateProgressMessage [simp]:
  "isUpdating (setUpdateProgressMessage m w) = isUpdating w"
  "updateProgressMessage (setUpdateProgressMessage m w) = updateProgressMessage w"
  "pending (setUpdateProgressMessage m w) = pending w @ [RequestProgressMessage m]"
  "events (setUpdateProgressMessage m w) = events w @ [SetUpdateProgressMessage m]"
  by (simp_all add: setUpdateProgressMessage_def)

lemma cells_onUpdateStart [simp]:
  "isUpdating (fst (onUpdateStart p w)) = isUpdating w"
  "updateProgressMessage (fst (onUpdateStart p w)) = updateProgressMessage w"
  "pending (fst (onUpdateStart p w)) = pending w"
  "events (fst (onUpdateStart p w)) = events w @ [OnUpdateStart]"
  by (simp_all add: onUpdateStart_def)

lemma cells_onUpdateEnd [simp]:
  "isUpdating (fst (onUpdateEnd p a w)) = isUpdating w"
  "updateProgressMessage (fst (onUpdateEnd p a w)) = updateProgressMessage w"
  "pending (fst (onUpdateEnd p a w)) = pending w"
  "events (fst (onUpdateEnd p a w)) = events w @ [OnUpdateEnd a]"
  by (simp_all add: onUpdateEnd_def)

lemma onUpdateEnd_not_Suspended [simp]: "snd (onUpdateEnd p a w) \<noteq> Suspended"
  by (simp add: onUpdateEnd_def split: option.splits)

text \<open>What a render leaves in the cells is decided by the queue.\<close>

lemma fold_applyRequest_fields [simp]:
  "events (fold applyRequest rs w) = events w"
  "form_documents (fold applyRequest rs w) = form_documents w"
  "pending (fold applyRequest rs w) = pending w"
proof (induction rs arbitrary: w)
  case Nil
  {
    case 1 show ?case by simp
  next
    case 2 show ?case by simp
  next
    case 3 show ?case by simp
  }
next
  case (Cons r rs)
  {
    case 1 show ?case using Cons.IH(1) by (cases r) simp_all
  next
    case 2 show ?case using Cons.IH(2) by (cases r) simp_all
  next
    case 3 show ?case using Cons.IH(3) by (cases r) simp_all
  }
qed

lemma fold_applyRequest_cells:
  "isUpdating w = isUpdating w' \<Longrightarrow>
     isUpdating (fold applyRequest rs w) = isUpdating (fold applyRequest rs w')"
  "updateProgressMessage w = updateProgressMessage w' \<Longrightarrow>
     updateProgressMessage (fold applyRequest rs w) = updateProgressMessage (fold applyRequest rs w')"
proof (induction rs arbitrary: w w')
  case Nil
  {
    case 1 then show ?case by simp
  next
    case 2 then show ?case by simp
  }
next
  case (Cons r rs)
  {
    case 1
    then have "isUpdating (applyRequest r w) = isUpdating (applyRequest r w')" by (cases r) simp_all
    from Cons.IH(1) [OF this] show ?case by simp
  next
    case 2
    then have "updateProgressMessage (applyRequest r w) = updateProgressMessage (applyRequest r w')"
      by (cases r) simp_all
    from Cons.IH(2) [OF this] show ?case by simp
  }
qed

lemma render_fields [simp]:
  "events (render w) = events w"
  "form_documents (render w) = form_documents w"
  "pending (render w) = []"
  by (simp_all add: render_def)

lemma fold_progress_isUpdating [simp]:
  "isUpdating (fold applyRequest (map RequestProgressMessage ms) w) = isUpdating w"
  by (induction ms arbitrary: w) simp_all

lemma fold_updating_message [simp]:
  "updateProgressMessage (fold applyRequest (map RequestUpdating bs) w) = updateProgressMessage w"
  by (induction bs arbitrary: w) simp_all

lemma render_last_requests:
  assumes "pending w = rs @ [RequestUpdating b, RequestProgressMessage m]"
  shows "isUpdating (render w) = b \<and> updateProgressMessage (render w) = m"
  using assms by (simp add: render_def)

lemma render_idempotent: "render (render w) = render w"
  by (simp add: render_def)

text \<open>
  It does not matter when React renders: a render of a front part of the queue followed
  by a render of the rest leaves what one render of the whole queue leaves.
\<close>

lemma fold_applyRequest_pending:
  "fold applyRequest rs (w\<lparr>pending := q\<rparr>) = (fold applyRequest rs w)\<lparr>pending := q\<rparr>"
proof (induction rs arbitrary: w)
  case Nil
  show ?case by simp
next
  case (Cons r rs)
  have "applyRequest r (w\<lparr>pending := q\<rparr>) = (applyRequest r w)\<lparr>pending := q\<rparr>"
    by (cases r) simp_all
  with Cons.IH [of "applyRequest r w"] show ?case by simp
qed

lemma render_in_two_steps:
  assumes "pending w = rs @ rs'"
  shows "render ((render (w\<lparr>pending := rs\<rparr>))\<lparr>pending := rs'\<rparr>) = render w"
  using assms by (simp add: render_def fold_applyRequest_pending)

section \<open>The progress loop\<close>

text \<open>The loop only appends to the log, and what it appends starts with a pull.\<close>

lemma forAwait_events:
  "\<exists>rest. events (fst (forAwait n gen k w)) = events w @ AwaitNext # rest"
proof (induction n arbitrary: k w)
  case 0
  show ?case by simp
next
  case (Suc n)
  show ?case
  proof (cases "gen k")
    case (Yield m)
    from Suc.IH [of "Suc k" "setUpdateProgressMessage (Some m) (emit AwaitNext w)"]
    obtain rest where
      "events (fst (forAwait n gen (Suc k) (setUpdateProgressMessage (Some m) (emit AwaitNext w)))) =
         events (setUpdateProgressMessage (Some m) (emit AwaitNext w)) @ AwaitNext # rest"
      by blast
    with Yield show ?thesis by simp
  qed simp_all
qed

text \<open>The loop calls one setter only, and no cell changes while it runs.\<close>

lemma forAwait_pending:
  "\<exists>ms. pending (fst (forAwait n gen k w)) = pending w @ map RequestProgressMessage ms"
proof (induction n arbitrary: k w)
  case 0
  have "pending (fst (forAwait 0 gen k w)) = pending w @ map RequestProgressMessage []" by simp
  then show ?case by blast
next
  case (Suc n)
  show ?case
  proof (cases "gen k")
    case (Yield m)
    from Suc.IH [of "Suc k" "setUpdateProgressMessage (Some m) (emit AwaitNext w)"]
    obtain ms where
      "pending (fst (forAwait n gen (Suc k) (setUpdateProgressMessage (Some m) (emit AwaitNext w)))) =
         pending (setUpdateProgressMessage (Some m) (emit AwaitNext w)) @ map RequestProgressMessage ms"
      by blast
    with Yield have "pending (fst (forAwait (Suc n) gen k w)) =
        pending w @ map RequestProgressMessage (Some m # ms)"
      by simp
    then show ?thesis by blast
  next
    case Return
    then have "pending (fst (forAwait (Suc n) gen k w)) = pending w @ map RequestProgressMessage []"
      by simp
    then show ?thesis by blast
  next
    case (Throw e)
    then have "pending (fst (forAwait (Suc n) gen k w)) = pending w @ map RequestProgressMessage []"
      by simp
    then show ?thesis by blast
  qed
qed

lemma forAwait_cells:
  "isUpdating (fst (forAwait n gen k w)) = isUpdating w \<and>
   updateProgressMessage (fst (forAwait n gen k w)) = updateProgressMessage w"
  by (induction n arbitrary: k w) (auto split: step.splits)

text \<open>A sequence that ends within the pulls that are answered leaves the loop.\<close>

lemma forAwait_settles:
  "\<exists>j<n. \<forall>m. gen (k + j) \<noteq> Yield m \<Longrightarrow> snd (forAwait n gen k w) \<noteq> Suspended"
proof (induction n arbitrary: k w)
  case 0
  then show ?case by simp
next
  case (Suc n)
  show ?case
  proof (cases "gen k")
    case (Yield m)
    from Suc.prems obtain j where j: "j < Suc n" "\<forall>m. gen (k + j) \<noteq> Yield m" by blast
    with Yield have "j \<noteq> 0" by (cases j) auto
    then obtain j' where "j = Suc j'" by (cases j) auto
    with j have "\<exists>j<n. \<forall>m. gen (Suc k + j) \<noteq> Yield m" by auto
    from Suc.IH [OF this] Yield show ?thesis by simp
  qed simp_all
qed

text \<open>Once the loop is left, answering more pulls changes nothing.\<close>

lemma forAwait_more_fuel:
  "snd (forAwait n gen k w) \<noteq> Suspended \<Longrightarrow> forAwait (n + d) gen k w = forAwait n gen k w"
  by (induction n arbitrary: k w) (auto split: step.splits)

section \<open>The blocks of the submit handler\<close>

lemma cells_finallyBlock [simp]:
  "isUpdating (finallyBlock w) = isUpdating w"
  "updateProgressMessage (finallyBlock w) = updateProgressMessage w"
  "pending (finallyBlock w) = pending w @ [RequestUpdating False, RequestProgressMessage None]"
  "events (finallyBlock w) = events w @ [SetUpdating False, SetUpdateProgressMessage None]"
  by (simp_all add: finallyBlock_def)

text \<open>After the \<open>finally\<close> clause the next render clears both cells.\<close>

lemma finallyBlock_clears:
  "isUpdating (render (finallyBlock w)) = False \<and>
   updateProgressMessage (render (finallyBlock w)) = None"
  by (rule render_last_requests [of _ "pending w"]) simp

lemma catchBlock_fields:
  "(\<exists>rest. events (fst (catchBlock stringify p e w)) = events w @ rest) \<and>
   pending (fst (catchBlock stringify p e w)) = pending w \<and>
   isUpdating (fst (catchBlock stringify p e w)) = isUpdating w \<and>
   updateProgressMessage (fst (catchBlock stringify p e w)) = updateProgressMessage w"
  by (auto simp: catchBlock_def onUpdateEnd_def split: sum.splits option.splits)

lemma tryBlock_noop:
  "isAnyFileChanged (documentsOf data) initialDocuments = 0 \<Longrightarrow>
     tryBlock fuel submitUpdateDocuments p initialDocuments data w = onUpdateEnd p None w"
  by (simp add: tryBlock_def Let_def)

lemma onSubmit_noop:
  assumes "isAnyFileChanged (documentsOf data) initialDocuments = 0"
      and "startRaises p = None" and "endRaises p None = None"
  shows "onSubmit fuel stringify submitUpdateDocuments p initialDocuments data w =
           (w\<lparr>pending := pending w @ [RequestUpdating True, RequestUpdating False,
                                       RequestProgressMessage None],
              events := events w @ [SetUpdating True, OnUpdateStart, OnUpdateEnd None,
                                    SetUpdating False, SetUpdateProgressMessage None]\<rparr>,
            Settled Resolved)"
  using assms(2,3)
  by (simp add: onSubmit_def tryBlock_noop [OF assms(1)] finallyBlock_def onUpdateEnd_def
        onUpdateStart_def setUpdating_def setUpdateProgressMessage_def emit_def)

text \<open>
  With a delta that is not empty the block starts with the call of the service; it
  queues progress messages only, and no cell changes while it runs.
\<close>

lemma tryBlock_change:
  assumes "isAnyFileChanged (documentsOf data) initialDocuments \<noteq> 0"
  shows "(\<exists>rest. events (fst (tryBlock fuel submitUpdateDocuments p initialDocuments data w)) =
           events w @ SubmitUpdateDocuments (addedFiles (documentsOf data))
                        (removedDocumentIds (documentsOf data) initialDocuments) # rest)"
proof (cases "submitUpdateDocuments (addedFiles (documentsOf data))
                (removedDocumentIds (documentsOf data) initialDocuments)")
  case (Inl e)
  with assms show ?thesis by (simp add: tryBlock_def Let_def)
next
  case (Inr gen)
  let ?w1 = "emit (SubmitUpdateDocuments (addedFiles (documentsOf data))
                     (removedDocumentIds (documentsOf data) initialDocuments)) w"
  obtain w2 x where fa: "forAwait fuel gen 0 ?w1 = (w2, x)" by (cases "forAwait fuel gen 0 ?w1")
  from forAwait_events [of fuel gen 0 ?w1] fa
  obtain rest where "events w2 = events ?w1 @ AwaitNext # rest" by auto
  with assms Inr fa show ?thesis
    by (cases x) (simp_all add: tryBlock_def Let_def)
qed

lemma tryBlock_fields:
  "(\<exists>ms. pending (fst (tryBlock fuel submitUpdateDocuments p initialDocuments data w)) =
      pending w @ map RequestProgressMessage ms) \<and>
   isUpdating (fst (tryBlock fuel submitUpdateDocuments p initialDocuments data w)) = isUpdating w \<and>
   updateProgressMessage (fst (tryBlock fuel submitUpdateDocuments p initialDocuments data w)) =
     updateProgressMessage w"
proof (cases "isAnyFileChanged (documentsOf data) initialDocuments = 0")
  case True
  have "pending w = pending w @ map RequestProgressMessage []" by simp
  with True show ?thesis by (auto simp: tryBlock_noop simp del: append_Nil2)
next
  case False
  show ?thesis
  proof (cases "submitUpdateDocuments (addedFiles (documentsOf data))
                  (removedDocumentIds (documentsOf data) initialDocuments)")
    case (Inl e)
    have "pending w = pending w @ map RequestProgressMessage []" by simp
    with False Inl show ?thesis by (auto simp: tryBlock_def Let_def simp del: append_Nil2)
  next
    case (Inr gen)
    let ?w1 = "emit (SubmitUpdateDocuments (addedFiles (documentsOf data))
                       (removedDocumentIds (documentsOf data) initialDocuments)) w"
    obtain w2 x where fa: "forAwait fuel gen 0 ?w1 = (w2, x)" by (cases "forAwait fuel gen 0 ?w1")
    from forAwait_pending [of fuel gen 0 ?w1] fa
    obtain ms where "pending w2 = pending w @ map RequestProgressMessage ms" by auto
    moreover from forAwait_cells [of fuel gen 0 ?w1] fa
    have "isUpdating w2 = isUpdating w \<and> updateProgressMessage w2 = updateProgressMessage w"
      by simp
    ultimately show ?thesis using False Inr fa
      by (cases x) (auto simp: tryBlock_def Let_def)
  qed
qed

lemma tryBlock_more_fuel:
  assumes "snd (tryBlock n submitUpdateDocuments p initialDocuments data w) \<noteq> Suspended"
  shows "tryBlock (n + d) submitUpdateDocuments p initialDocuments data w =
         tryBlock n submitUpdateDocuments p initialDocuments data w"
proof (cases "isAnyFileChanged (documentsOf data) initialDocuments = 0")
  case True
  then show ?thesis by (simp add: tryBlock_noop)
next
  case False
  show ?thesis
  proof (cases "submitUpdateDocuments (addedFiles (documentsOf data))
                  (removedDocumentIds (documentsOf data) initialDocuments)")
    case (Inl e)
    with False show ?thesis by (simp add: tryBlock_def Let_def)
  next
    case (Inr gen)
    let ?w1 = "emit (SubmitUpdateDocuments (addedFiles (documentsOf data))
                       (removedDocumentIds (documentsOf data) initialDocuments)) w"
    from assms False Inr have "snd (forAwait n gen 0 ?w1) \<noteq> Suspended"
      by (auto simp: tryBlock_def Let_def split: prod.splits exit.splits)
    from forAwait_more_fuel [OF this, of d] False Inr show ?thesis
      by (simp add: tryBlock_def Let_def)
  qed
qed

section \<open>The submit handler as a whole\<close>

text \<open>
  The handler settles as soon as the progress sequence ends within the pulls that are
  answered (or the call of the service raises, or the delta is empty, or
  \<open>onUpdateStart()\<close> raises), and a settled run is not changed by answering more pulls.
\<close>

lemma onSubmit_settles:
  assumes "case submitUpdateDocuments (addedFiles (documentsOf data))
                  (removedDocumentIds (documentsOf data) initialDocuments) of
             Inl e \<Rightarrow> True
           | Inr gen \<Rightarrow> \<exists>j<fuel. \<forall>m. gen j \<noteq> Yield m"
  shows "\<exists>c. snd (onSubmit fuel stringify submitUpdateDocuments p initialDocuments data w) = Settled c"
proof -
  have "snd (tryBlock fuel submitUpdateDocuments p initialDocuments data v) \<noteq> Suspended" for v
  proof (cases "isAnyFileChanged (documentsOf data) initialDocuments = 0")
    case True
    then show ?thesis by (simp add: tryBlock_noop)
  next
    case False
    show ?thesis
    proof (cases "submitUpdateDocuments (addedFiles (documentsOf data))
                    (removedDocumentIds (documentsOf data) initialDocuments)")
      case (Inl e)
      with False show ?thesis by (simp add: tryBlock_def Let_def)
    next
      case (Inr gen)
      with assms have "\<exists>j<fuel. \<forall>m. gen (0 + j) \<noteq> Yield m" by simp
      from forAwait_settles [OF this]
      have "\<And>u u'. forAwait fuel gen 0 u \<noteq> (u', Suspended)" by (metis snd_conv)
      with False Inr show ?thesis
        by (auto simp: tryBlock_def Let_def split: prod.splits exit.splits)
    qed
  qed
  then have "\<And>v v'. tryBlock fuel submitUpdateDocuments p initialDocuments data v \<noteq> (v', Suspended)"
    by (metis snd_conv)
  then show ?thesis
    by (auto simp: onSubmit_def split: prod.splits exit.splits)
qed

lemma onSubmit_more_fuel:
  assumes "snd (onSubmit n stringify submitUpdateDocuments p initialDocuments data w) \<noteq> Pending"
  shows "onSubmit (n + d) stringify submitUpdateDocuments p initialDocuments data w =
         onSubmit n stringify submitUpdateDocuments p initialDocuments data w"
proof (cases "startRaises p")
  case (Some e)
  then show ?thesis by (simp add: onSubmit_def onUpdateStart_def)
next
  case None
  with assms
  have "snd (tryBlock n submitUpdateDocuments p initialDocuments data
               (emit OnUpdateStart (setUpdating True w))) \<noteq> Suspended"
    by (auto simp: onSubmit_def onUpdateStart_def split: prod.splits exit.splits)
  from tryBlock_more_fuel [OF this, of d] None show ?thesis
    by (simp add: onSubmit_def onUpdateStart_def)
qed

text \<open>The handler as the \<open>try\<close> statement entered after a start that returned.\<close>

lemma onSubmit_started:
  assumes "startRaises p = None"
  shows "onSubmit fuel stringify submitUpdateDocuments p initialDocuments data w =
     (case tryBlock fuel submitUpdateDocuments p initialDocuments data
             (emit OnUpdateStart (setUpdating True w)) of
        (w1, Suspended) \<Rightarrow> (w1, Pending)
      | (w1, Normal) \<Rightarrow> (finallyBlock w1, Settled Resolved)
      | (w1, Thrown e) \<Rightarrow>
          (case catchBlock stringify p e w1 of (w2, c) \<Rightarrow> (finallyBlock w2, Settled c)))"
  using assms by (simp add: onSubmit_def onUpdateStart_def)

lemma onSubmit_start_raises:
  assumes "startRaises p = Some e"
  shows "onSubmit fuel stringify submitUpdateDocuments p initialDocuments data w =
           (emit OnUpdateStart (setUpdating True w), Settled (Rejected e))"
  using assms by (simp add: onSubmit_def onUpdateStart_def)

text \<open>Every run starts with the two calls of lines 80 and 81.\<close>

lemma onSubmit_events_start:
  "\<exists>rest. events (fst (onSubmit fuel stringify submitUpdateDocuments p initialDocuments data w)) =
     events w @ SetUpdating True # OnUpdateStart # rest"
proof (cases "startRaises p")
  case (Some e)
  then show ?thesis by (simp add: onSubmit_start_raises)
next
  case None
  let ?w0 = "emit OnUpdateStart (setUpdating True w)"
  obtain w1 x where tb: "tryBlock fuel submitUpdateDocuments p initialDocuments data ?w0 = (w1, x)"
    by (cases "tryBlock fuel submitUpdateDocuments p initialDocuments data ?w0")
  have "\<exists>rest. events w1 = events ?w0 @ rest"
  proof (cases "isAnyFileChanged (documentsOf data) initialDocuments = 0")
    case True
    with tb have "w1 = fst (onUpdateEnd p None ?w0)" by (simp add: tryBlock_noop)
    then show ?thesis by simp
  next
    case False
    from tryBlock_change [OF False, of fuel submitUpdateDocuments p ?w0] tb
    show ?thesis by auto
  qed
  then obtain rest where w1: "events w1 = events w @ SetUpdating True # OnUpdateStart # rest"
    by auto
  show ?thesis
  proof (cases x)
    case Normal
    with tb w1 None show ?thesis by (simp add: onSubmit_started)
  next
    case (Thrown e)
    obtain w2 c where cb: "catchBlock stringify p e w1 = (w2, c)"
      by (cases "catchBlock stringify p e w1")
    with catchBlock_fields [of stringify p e w1] obtain more where "events w2 = events w1 @ more"
      by auto
    with tb w1 Thrown cb None show ?thesis by (simp add: onSubmit_started)
  next
    case Suspended
    with tb w1 None show ?thesis by (simp add: onSubmit_started)
  qed
qed

lemma onSubmit_events_change:
  assumes "isAnyFileChanged (documentsOf data) initialDocuments \<noteq> 0" and "startRaises p = None"
  shows "\<exists>rest. events (fst (onSubmit fuel stringify submitUpdateDocuments p initialDocuments data w)) =
           events w @ [SetUpdating True, OnUpdateStart,
                       SubmitUpdateDocuments (addedFiles (documentsOf data))
                         (removedDocumentIds (documentsOf data) initialDocuments)] @ rest"
proof -
  let ?w0 = "emit OnUpdateStart (setUpdating True w)"
  obtain w1 x where tb: "tryBlock fuel submitUpdateDocuments p initialDocuments data ?w0 = (w1, x)"
    by (cases "tryBlock fuel submitUpdateDocuments p initialDocuments data ?w0")
  from tryBlock_change [OF assms(1), of fuel submitUpdateDocuments p ?w0] tb
  obtain rest where w1: "events w1 = events w @ [SetUpdating True, OnUpdateStart,
                       SubmitUpdateDocuments (addedFiles (documentsOf data))
                         (removedDocumentIds (documentsOf data) initialDocuments)] @ rest"
    by auto
  show ?thesis
  proof (cases x)
    case Normal
    with tb w1 assms(2) show ?thesis by (simp add: onSubmit_started)
  next
    case (Thrown e)
    obtain w2 c where cb: "catchBlock stringify p e w1 = (w2, c)"
      by (cases "catchBlock stringify p e w1")
    with catchBlock_fields [of stringify p e w1] obtain more where "events w2 = events w1 @ more"
      by auto
    with tb w1 Thrown cb assms(2) show ?thesis by (simp add: onSubmit_started)
  next
    case Suspended
    with tb w1 assms(2) show ?thesis by (simp add: onSubmit_started)
  qed
qed

text \<open>The handler writes no cell: it only queues.\<close>

lemma onSubmit_cells:
  "isUpdating (fst (onSubmit fuel stringify submitUpdateDocuments p initialDocuments data w)) =
     isUpdating w \<and>
   updateProgressMessage (fst (onSubmit fuel stringify submitUpdateDocuments p initialDocuments data w)) =
     updateProgressMessage w"
proof (cases "startRaises p")
  case (Some e)
  then show ?thesis by (simp add: onSubmit_start_raises)
next
  case None
  let ?w0 = "emit OnUpdateStart (setUpdating True w)"
  obtain w1 x where tb: "tryBlock fuel submitUpdateDocuments p initialDocuments data ?w0 = (w1, x)"
    by (cases "tryBlock fuel submitUpdateDocuments p initialDocuments data ?w0")
  from tryBlock_fields [of fuel submitUpdateDocuments p initialDocuments data ?w0] tb
  have w1: "isUpdating w1 = isUpdating w \<and> updateProgressMessage w1 = updateProgressMessage w"
    by simp
  show ?thesis
  proof (cases x)
    case Normal
    with tb w1 None show ?thesis by (simp add: onSubmit_started)
  next
    case (Thrown e)
    obtain w2 c where cb: "catchBlock stringify p e w1 = (w2, c)"
      by (cases "catchBlock stringify p e w1")
    with catchBlock_fields [of stringify p e w1]
    have "isUpdating w2 = isUpdating w1 \<and> updateProgressMessage w2 = updateProgressMessage w1"
      by simp
    with tb w1 Thrown cb None show ?thesis by (simp add: onSubmit_started)
  next
    case Suspended
    with tb w1 None show ?thesis by (simp add: onSubmit_started)
  qed
qed

text \<open>The queue of a run starts with the request of line 80.\<close>

lemma onSubmit_pending_start:
  "\<exists>rest. pending (fst (onSubmit fuel stringify submitUpdateDocuments p initialDocuments data w)) =
     pending w @ RequestUpdating True # rest"
proof (cases "startRaises p")
  case (Some e)
  then show ?thesis by (simp add: onSubmit_start_raises)
next
  case None
  let ?w0 = "emit OnUpdateStart (setUpdating True w)"
  obtain w1 x where tb: "tryBlock fuel submitUpdateDocuments p initialDocuments data ?w0 = (w1, x)"
    by (cases "tryBlock fuel submitUpdateDocuments p initialDocuments data ?w0")
  from tryBlock_fields [of fuel submitUpdateDocuments p initialDocuments data ?w0] tb
  obtain ms where w1: "pending w1 = pending w @ RequestUpdating True # map RequestProgressMessage ms"
    by auto
  show ?thesis
  proof (cases x)
    case Normal
    with tb w1 None show ?thesis by (simp add: onSubmit_started)
  next
    case (Thrown e)
    obtain w2 c where cb: "catchBlock stringify p e w1 = (w2, c)"
      by (cases "catchBlock stringify p e w1")
    with catchBlock_fields [of stringify p e w1] have "pending w2 = pending w1" by simp
    with tb w1 Thrown cb None show ?thesis by (simp add: onSubmit_started)
  next
    case Suspended
    with tb w1 None show ?thesis by (simp add: onSubmit_started)
  qed
qed

text \<open>While a run is pending, a render sets the busy flag.\<close>

lemma onSubmit_pending_busy:
  assumes "snd (onSubmit fuel stringify submitUpdateDocuments p initialDocuments data w) = Pending"
  shows "isUpdating (render (fst (onSubmit fuel stringify submitUpdateDocuments p initialDocuments data w)))"
proof (cases "startRaises p")
  case (Some e)
  with assms show ?thesis by (simp add: onSubmit_start_raises)
next
  case None
  let ?w0 = "emit OnUpdateStart (setUpdating True w)"
  obtain w1 x where tb: "tryBlock fuel submitUpdateDocuments p initialDocuments data ?w0 = (w1, x)"
    by (cases "tryBlock fuel submitUpdateDocuments p initialDocuments data ?w0")
  from tryBlock_fields [of fuel submitUpdateDocuments p initialDocuments data ?w0] tb
  obtain ms where w1: "pending w1 = pending w @ RequestUpdating True # map RequestProgressMessage ms"
    by auto
  from assms tb None have x: "x = Suspended"
    by (cases x) (auto simp: onSubmit_started split: prod.splits)
  from w1 have "isUpdating (render w1)" by (simp add: render_def)
  with tb x None show ?thesis by (simp add: onSubmit_started)
qed

text \<open>A run that settles after a start that returned ends with the \<open>finally\<close> clause.\<close>

lemma onSubmit_settled_finally:
  assumes "startRaises p = None"
      and "onSubmit fuel stringify submitUpdateDocuments p initialDocuments data w = (w', Settled c)"
  shows "\<exists>v. w' = finallyBlock v"
  using assms by (auto simp: onSubmit_started split: prod.splits exit.splits)

section \<open>Claims about the submit handler\<close>



text \<open>
  C4, as stated, fails: \<open>onUpdateStart()\<close> is called in line 81, before the \<open>try\<close>
  statement. When it raises, the attempt is over (the promise rejects) without the
  \<open>finally\<close> clause: the only setter call is \<open>setUpdating(true)\<close>, and after the next
  render the busy flag is set.
\<close>

theorem cleanup_on_every_exit_counterexample:
  "onSubmit 3 notSerializable twoMessages startFails initial12 edited idle =
     (\<lparr>isUpdating = False, updateProgressMessage = None, pending = [RequestUpdating True],
       form_documents = [], events = [SetUpdating True, OnUpdateStart]\<rparr>,
      Settled (Rejected (JSError ''Error'' ''start failed''))) \<and>
   isUpdating (render (fst (onSubmit 3 notSerializable twoMessages startFails initial12 edited idle))) =
     True"
  by (simp add: run_defs input_defs render_def)

text \<open>
  C4, amended: on every exit path of a submission attempt whose \<open>onUpdateStart()\<close> has
  returned (the progress sequence completed, a value was raised at any point after
  that, whether the \<open>catch\<close> clause reported it or raised in turn, or the no-op
  return), the last two setter calls are \<open>setUpdating(false)\<close> and
  \<open>setUpdateProgressMessage(null)\<close>, so after the next render \<open>isUpdating\<close> is false and
  \<open>updateProgressMessage\<close> is null.
\<close>

theorem cleanup_on_every_exit:
  assumes "startRaises p = None"
      and "onSubmit fuel stringify submitUpdateDocuments p initialDocuments data w = (w', Settled c)"
  shows "(\<exists>rs. pending w' = rs @ [RequestUpdating False, RequestProgressMessage None]) \<and>
         isUpdating (render w') = False \<and> updateProgressMessage (render w') = None"
proof -
  from onSubmit_settled_finally [OF assms] obtain v where v: "w' = finallyBlock v" by blast
  then have "pending w' = pending v @ [RequestUpdating False, RequestProgressMessage None]"
    by simp
  with v finallyBlock_clears [of v] show ?thesis by auto
qed

theorem cleanup_on_every_exit_witness:
  "onSubmit 3 notSerializable twoMessages quiet initial12 edited idle =
     (\<lparr>isUpdating = False, updateProgressMessage = None,
       pending = [RequestUpdating True, RequestProgressMessage (Some ''uploading c.pdf''),
                  RequestProgressMessage (Some ''done''),
                  RequestUpdating False, RequestProgressMessage None],
       form_documents = [],
       events = [SetUpdating True, OnUpdateStart, SubmitUpdateDocuments [File ''c.pdf''] [''2''],
                 AwaitNext, SetUpdateProgressMessage (Some ''uploading c.pdf''),
                 AwaitNext, SetUpdateProgressMessage (Some ''done''),
                 AwaitNext, OnUpdateEnd None, SetUpdating False, SetUpdateProgressMessage None]\<rparr>,
      Settled Resolved) \<and>
   isUpdating (render (fst (onSubmit 3 notSerializable twoMessages quiet initial12 edited idle))) = False \<and>
   updateProgressMessage
     (render (fst (onSubmit 3 notSerializable twoMessages quiet initial12 edited idle))) = None"
proof -
  have q: "startRaises quiet = None" by (simp add: quiet_def)
  have h: "onSubmit 3 notSerializable twoMessages quiet initial12 edited idle =
     (\<lparr>isUpdating = False, updateProgressMessage = None,
       pending = [RequestUpdating True, RequestProgressMessage (Some ''uploading c.pdf''),
                  RequestProgressMessage (Some ''done''),
                  RequestUpdating False, RequestProgressMessage None],
       form_documents = [],
       events = [SetUpdating True, OnUpdateStart, SubmitUpdateDocuments [File ''c.pdf''] [''2''],
                 AwaitNext, SetUpdateProgressMessage (Some ''uploading c.pdf''),
                 AwaitNext, SetUpdateProgressMessage (Some ''done''),
                 AwaitNext, OnUpdateEnd None, SetUpdating False, SetUpdateProgressMessage None]\<rparr>,
      Settled Resolved)"
    by (simp add: run_defs input_defs eval_nat_numeral)
  from cleanup_on_every_exit [OF q h] h show ?thesis by simp
qed

text \<open>
  C6, as stated, fails: the busy flag is not set when \<open>onUpdateStart()\<close> is called. The
  call of \<open>setUpdating(true)\<close> in line 80 only queues the value; the handler runs on
  without a render up to its first \<open>await\<close>, so the cell is still false in the state in
  which line 81 runs, and still false at the first pull on the progress sequence.
\<close>

theorem start_before_first_await_counterexample:
  "isUpdating (setUpdating True idle) = False \<and>
   onSubmit 0 notSerializable twoMessages quiet initial12 edited idle =
     (\<lparr>isUpdating = False, updateProgressMessage = None, pending = [RequestUpdating True],
       form_documents = [],
       events = [SetUpdating True, OnUpdateStart, SubmitUpdateDocuments [File ''c.pdf''] [''2''],
                 AwaitNext]\<rparr>,
      Pending)"
  by (simp add: run_defs input_defs)

text \<open>
  C6, amended: for every submission that enters the submitting state (the delta is not
  empty and \<open>onUpdateStart()\<close> has returned), \<open>onUpdateStart()\<close> is called before the first
  pull on the progress sequence and right after \<open>setUpdating(true)\<close>: the log of the
  attempt starts with \<open>setUpdating(true)\<close>, \<open>onUpdateStart()\<close> and the call of the update
  service, in this order. At that point the busy flag is requested, not set: up to the
  first pull the cell \<open>isUpdating\<close> has the value it had before the attempt, the request
  is the first of the attempt in the queue, and while the attempt is pending a render
  by React sets the flag.
\<close>

theorem start_before_first_await:
  assumes "addedFiles (documentsOf data) \<noteq> [] \<or>
           removedDocumentIds (documentsOf data) initialDocuments \<noteq> []"
      and "startRaises p = None"
  shows "(\<exists>rest. events (fst (onSubmit fuel stringify submitUpdateDocuments p initialDocuments data w)) =
            events w @ [SetUpdating True, OnUpdateStart,
                        SubmitUpdateDocuments (addedFiles (documentsOf data))
                          (removedDocumentIds (documentsOf data) initialDocuments)] @ rest) \<and>
         (\<exists>rest. pending (fst (onSubmit fuel stringify submitUpdateDocuments p initialDocuments data w)) =
            pending w @ RequestUpdating True # rest) \<and>
         isUpdating (fst (onSubmit 0 stringify submitUpdateDocuments p initialDocuments data w)) =
           isUpdating w \<and>
         (snd (onSubmit fuel stringify submitUpdateDocuments p initialDocuments data w) = Pending \<longrightarrow>
            isUpdating (render (fst (onSubmit fuel stringify submitUpdateDocuments p
                                       initialDocuments data w))))"
proof -
  from assms(1) have "isAnyFileChanged (documentsOf data) initialDocuments \<noteq> 0"
    by (simp add: isAnyFileChanged_0)
  from onSubmit_events_change [OF this assms(2), of fuel stringify submitUpdateDocuments w]
    onSubmit_pending_start [of fuel stringify submitUpdateDocuments p initialDocuments data w]
    onSubmit_cells [of 0 stringify submitUpdateDocuments p initialDocuments data w]
    onSubmit_pending_busy [of fuel stringify submitUpdateDocuments p initialDocuments data w]
  show ?thesis by blast
qed

theorem start_before_first_await_witness:
  "snd (onSubmit 0 notSerializable twoMessages quiet initial12 edited idle) = Pending \<and>
   events (fst (onSubmit 0 notSerializable twoMessages quiet initial12 edited idle)) =
     [SetUpdating True, OnUpdateStart, SubmitUpdateDocuments [File ''c.pdf''] [''2''], AwaitNext] \<and>
   pending (fst (onSubmit 0 notSerializable twoMessages quiet initial12 edited idle)) =
     [RequestUpdating True] \<and>
   isUpdating (fst (onSubmit 0 notSerializable twoMessages quiet initial12 edited idle)) = False \<and>
   isUpdating (render (fst (onSubmit 0 notSerializable twoMessages quiet initial12 edited idle)))"
proof -
  have h: "addedFiles (documentsOf edited) \<noteq> [] \<or>
           removedDocumentIds (documentsOf edited) initial12 \<noteq> []"
    by (simp add: run_defs input_defs)
  have q: "startRaises quiet = None" by (simp add: quiet_def)
  have r: "onSubmit 0 notSerializable twoMessages quiet initial12 edited idle =
     (\<lparr>isUpdating = False, updateProgressMessage = None, pending = [RequestUpdating True],
       form_documents = [],
       events = [SetUpdating True, OnUpdateStart, SubmitUpdateDocuments [File ''c.pdf''] [''2''],
                 AwaitNext]\<rparr>,
      Pending)"
    by (simp add: run_defs input_defs)
  from start_before_first_await [OF h q, of 0 notSerializable twoMessages idle] r
  show ?thesis by (simp add: render_def)
qed



section \<open>The \<open>catch\<close> clause\<close>

text \<open>
  For a raised value other than \<open>undefined\<close> and \<open>null\<close> that the serializer accepts,
  the \<open>catch\<close> clause reports the \<open>message\<close> property when it is truthy, else the
  serialized form when it is truthy, else the raised value itself.
\<close>

lemma getMessage_defined:
  "e \<noteq> JSUndefined \<Longrightarrow> e \<noteq> JSNull \<Longrightarrow> \<exists>m. getMessage e = Inr m"
  by (cases e) simp_all

lemma catchBlock_reports:
  assumes "getMessage e = Inr m" and "stringify e = Inr s"
  shows "events (fst (catchBlock stringify p e w)) =
           events w @ [OnUpdateEnd (Some (if truthy m then m else if truthy s then s else e))]"
  using assms
  by (simp add: catchBlock_def errorMessage_def onUpdateEnd_def split: option.splits)

text \<open>On \<open>undefined\<close> and \<open>null\<close> the clause raises before it reports anything.\<close>

lemma catchBlock_nullish:
  "catchBlock stringify p JSUndefined w = (w, Rejected nullishTypeError) \<and>
   catchBlock stringify p JSNull w = (w, Rejected nullishTypeError)"
  by (simp add: catchBlock_def errorMessage_def)

text \<open>
  The spec's scenario: one message, then a rejection with an object that has no
  \<open>message\<close> property; the serialized form is reported.
\<close>

lemma serialized_fallback_reported:
  assumes "stringify (JSObject [(''code'', JSNumber 500)]) = Inr (JSString s)" and "s \<noteq> []"
  shows "onSubmit (Suc (Suc fuel)) stringify (rejectsWith (JSObject [(''code'', JSNumber 500)]))
           quiet initial12 edited w =
     (w\<lparr>pending := pending w @
          [RequestUpdating True, RequestProgressMessage (Some ''uploading c.pdf''),
           RequestUpdating False, RequestProgressMessage None],
        events := events w @
          [SetUpdating True, OnUpdateStart, SubmitUpdateDocuments [File ''c.pdf''] [''2''],
           AwaitNext, SetUpdateProgressMessage (Some ''uploading c.pdf''), AwaitNext,
           OnUpdateEnd (Some (JSString s)),
           SetUpdating False, SetUpdateProgressMessage None]\<rparr>,
      Settled Resolved)"
  using assms by (simp add: run_defs input_defs)

text \<open>
  C3 does not hold of the code for a raised \<open>undefined\<close>: when the progress sequence
  rejects with \<open>undefined\<close>, reading \<open>e.message\<close> raises inside the \<open>catch\<close> clause, so
  \<open>onUpdateEnd\<close> is not called at all; the \<open>finally\<close> clause runs, so both cells are
  clear after the next render, and the promise of \<open>onSubmit\<close> rejects with the
  \<open>TypeError\<close>.
\<close>

theorem rejection_with_undefined_escapes:
  "onSubmit (Suc (Suc fuel)) stringify (rejectsWith JSUndefined) quiet initial12 edited w =
     (w\<lparr>pending := pending w @
          [RequestUpdating True, RequestProgressMessage (Some ''uploading c.pdf''),
           RequestUpdating False, RequestProgressMessage None],
        events := events w @
          [SetUpdating True, OnUpdateStart, SubmitUpdateDocuments [File ''c.pdf''] [''2''],
           AwaitNext, SetUpdateProgressMessage (Some ''uploading c.pdf''), AwaitNext,
           SetUpdating False, SetUpdateProgressMessage None]\<rparr>,
      Settled (Rejected nullishTypeError)) \<and>
   isUpdating (render (fst (onSubmit (Suc (Suc fuel)) stringify (rejectsWith JSUndefined) quiet
                              initial12 edited w))) = False \<and>
   updateProgressMessage
     (render (fst (onSubmit (Suc (Suc fuel)) stringify (rejectsWith JSUndefined) quiet
                     initial12 edited w))) = None"
  by (simp add: run_defs input_defs render_def)

section \<open>A new initial set\<close>

text \<open>
  C5, as stated, fails: the effect does not call \<open>setUpdateProgressMessage\<close>. After one
  progress message of a submission, a new (here empty) initial set leaves the message
  in the cell, also after the next render.
\<close>

theorem initialDocuments_effect_counterexample:
  "updateProgressMessage
     (render (initialDocumentsEffect []
        (fst (onSubmit 1 notSerializable twoMessages quiet initial12 edited idle)))) =
   Some ''uploading c.pdf''"
  by (simp add: initialDocumentsEffect_def formReset_def run_defs input_defs render_def)

text \<open>
  C5, amended: when the parent supplies a new initial set, the busy flag is reset to
  false (the effect queues this one value, and the flag is false after the next render)
  and the edit list is reset to the new initial set; \<open>updateProgressMessage\<close> keeps its
  value (after the render it has the value it would have had without the effect), and
  the progress text is no longer rendered, because it is rendered only while the busy
  flag is set.
\<close>

theorem initialDocuments_effect_resets:
  "isUpdating (render (initialDocumentsEffect initialDocuments w)) = False \<and>
   form_documents (initialDocumentsEffect initialDocuments w) = map asDocument initialDocuments \<and>
   shownProgress (render (initialDocumentsEffect initialDocuments w)) = None \<and>
   updateProgressMessage (initialDocumentsEffect initialDocuments w) = updateProgressMessage w \<and>
   pending (initialDocumentsEffect initialDocuments w) = pending w @ [RequestUpdating False] \<and>
   updateProgressMessage (render (initialDocumentsEffect initialDocuments w)) =
     updateProgressMessage (render w)"
proof -
  let ?v = "initialDocumentsEffect initialDocuments w"
  have p: "pending ?v = pending w @ [RequestUpdating False]"
    and f: "form_documents ?v = map asDocument initialDocuments"
    and c: "isUpdating ?v = isUpdating w" "updateProgressMessage ?v = updateProgressMessage w"
    by (simp_all add: initialDocumentsEffect_def formReset_def setUpdating_def emit_def)
  from p have u: "isUpdating (render ?v) = False" by (simp add: render_def)
  from p fold_applyRequest_cells(2) [OF c(2), of "pending w"]
  have m: "updateProgressMessage (render ?v) = updateProgressMessage (render w)"
    by (simp add: render_def)
  from u have "shownProgress (render ?v) = None" by (simp add: shownProgress_def)
  with u f m p c(2) show ?thesis by simp
qed

end
